theory Spec2Isabelle
  imports Main "HOL-Library.Word"
begin

unbundle bit_operations_syntax

section \<open>Machine types\<close>

text \<open>
  The C sources use fixed-width unsigned integers and \<^verbatim>\<open>size_t\<close>. The fixed-width
  types are words of that width. \<^verbatim>\<open>size_t\<close> is taken as 64 bits wide (an LP64 platform);
  its arithmetic wraps as C's unsigned arithmetic does. A \<^verbatim>\<open>char\<close> is a byte.
\<close>

type_synonym u8 = "8 word"
type_synonym u16 = "16 word"
type_synonym u32 = "32 word"
type_synonym u64 = "64 word"
type_synonym size_t = "64 word"

text \<open>
  A C string is the run of bytes before the first NUL; \<^verbatim>\<open>strlen\<close> counts them. A byte list
  that holds no NUL stands for a buffer whose terminator follows the listed bytes.
\<close>

definition strlen :: "u8 list \<Rightarrow> nat" where
  "strlen s = length (takeWhile (\<lambda>c. c \<noteq> 0) s)"

text \<open>
  zlib's \<^verbatim>\<open>uInt\<close> is \<^verbatim>\<open>unsigned int\<close>, 32 bits wide. A \<^verbatim>\<open>size_t\<close> length given to a
  \<^verbatim>\<open>uInt\<close> parameter or field is converted to it, so that of a buffer of \<open>data_len\<close> bytes
  zlib is told of the first \<open>data_len mod 2 ^ 32\<close> only.
\<close>

definition uInt :: "nat \<Rightarrow> nat" where
  "uInt data_len = unat (of_nat data_len :: 32 word)"

section \<open>The growable array (varray.h, varray.c)\<close>

text \<open>
  \<^verbatim>\<open>varray_t\<close> is a header (capacity, len) in front of a malloc'ed buffer. The model keeps the
  capacity and the list of the \<^verbatim>\<open>len\<close> stored elements \<^verbatim>\<open>data[0..len)\<close>; \<^verbatim>\<open>len\<close> is the length
  of that list. Both counters are \<^verbatim>\<open>size_t\<close> in C; an array of \<open>2 ^ 63\<close> elements cannot be
  allocated, so \<^verbatim>\<open>len * 2\<close> never wraps and the counters are natural numbers here.
  \<^verbatim>\<open>malloc\<close> and \<^verbatim>\<open>realloc\<close> are taken to succeed (the C code does not test their result).
  The leading underscore of the internal C names is dropped.
\<close>

record 'a varray_t =
  capacity :: nat
  data :: "'a list"

definition va_len :: "'a varray_t \<Rightarrow> nat" where
  "va_len va = length (data va)"

definition va_cap :: "'a varray_t \<Rightarrow> nat" where
  "va_cap va = capacity va"

text \<open>\<^verbatim>\<open>_varray_init\<close>: a request for zero elements reserves one.\<close>

definition varray_init :: "nat \<Rightarrow> 'a varray_t" where
  "varray_init num_elems =
     (let num_elems = (if num_elems = 0 then 1 else num_elems)
      in \<lparr>capacity = num_elems, data = []\<rparr>)"

text \<open>
  \<^verbatim>\<open>_varray_resize\<close>: \<^verbatim>\<open>realloc\<close> to \<open>n\<close> elements and record the capacity. \<^verbatim>\<open>len\<close> is not
  touched. \<^verbatim>\<open>realloc\<close> keeps the contents up to the smaller of the two sizes; the only
  caller below asks for \<^verbatim>\<open>len * 2\<close>, which keeps every stored element.
\<close>

definition varray_resize :: "'a varray_t \<Rightarrow> nat \<Rightarrow> 'a varray_t" where
  "varray_resize va n = va\<lparr>capacity := n\<rparr>"

text \<open>\<^verbatim>\<open>_va_double_size\<close> asks for twice the length (not twice the capacity).\<close>

definition va_double_size :: "'a varray_t \<Rightarrow> 'a varray_t" where
  "va_double_size va = varray_resize va (va_len va * 2)"

definition resize_if_req :: "'a varray_t \<Rightarrow> 'a varray_t" where
  "resize_if_req va = (if va_cap va \<le> va_len va then va_double_size va else va)"

text \<open>\<^verbatim>\<open>varray_push\<close>: \<^verbatim>\<open>( _resize_if_req( ptr ), ( ptr )[varray_len( ptr )++] = elem )\<close>.\<close>

definition varray_push :: "'a varray_t \<Rightarrow> 'a \<Rightarrow> 'a varray_t" where
  "varray_push va elem = (let va' = resize_if_req va in va'\<lparr>data := data va' @ [elem]\<rparr>)"

text \<open>
  \<^verbatim>\<open>varray_pop\<close> is \<^verbatim>\<open>ptr[--len]\<close> and \<^verbatim>\<open>varray_last\<close> is \<^verbatim>\<open>ptr[len - 1]\<close>. On an empty array
  both index out of the buffer, which C leaves undefined: the model answers \<open>None\<close> there.
\<close>

definition varray_pop :: "'a varray_t \<Rightarrow> ('a \<times> 'a varray_t) option" where
  "varray_pop va =
     (if va_len va = 0 then None
      else Some (data va ! (va_len va - 1), va\<lparr>data := butlast (data va)\<rparr>))"

definition varray_last :: "'a varray_t \<Rightarrow> 'a option" where
  "varray_last va = (if va_len va = 0 then None else Some (data va ! (va_len va - 1)))"

text \<open>Pushing the elements of a list one at a time, first element first.\<close>

definition push_all :: "'a varray_t \<Rightarrow> 'a list \<Rightarrow> 'a varray_t" where
  "push_all va xs = foldl varray_push va xs"

section \<open>ZIP encoder: data types (zip.h, zip.c)\<close>

definition ZIP_ENTRY_MAX_NAME_LEN :: nat where
  "ZIP_ENTRY_MAX_NAME_LEN = 127"

definition ZIP_INTERNAL_BUFFER_SIZE :: nat where
  "ZIP_INTERNAL_BUFFER_SIZE = 4 * 2 ^ 10"

record zip_datetime =
  year :: u32
  month :: u32
  day :: u32
  hours :: u32
  minutes :: u32
  seconds :: u32

text \<open>
  \<^verbatim>\<open>zip_entry_t\<close>. The field \<^verbatim>\<open>size\<close> is called \<open>size'\<close> here. \<open>name\<close> holds the bytes of
  the \<^verbatim>\<open>char name[ZIP_ENTRY_MAX_NAME_LEN + 1]\<close> buffer up to and including the NUL that
  \<^verbatim>\<open>zip_entry_add\<close> writes; the bytes behind it are never initialised.
\<close>

record zip_entry_t =
  offset :: u32
  crc :: u32
  size' :: u32
  size_compressed :: u32
  name :: "u8 list"
  time :: u16
  date :: u16

record zip_local_file_header =
  lf_signature :: u32
  lf_extract_version :: u16
  lf_flags :: u16
  lf_method :: u16
  lf_modif_time :: u16
  lf_modif_date :: u16
  lf_crc :: u32
  lf_compressed_size :: u32
  lf_uncompressed_size :: u32
  lf_fname_length :: u16
  lf_extra_field_length :: u16

record zip_central_dir =
  cd_signature :: u32
  cd_made_by :: u16
  cd_extract_version :: u16
  cd_flags :: u16
  cd_method :: u16
  cd_modif_time :: u16
  cd_modif_date :: u16
  cd_crc :: u32
  cd_compressed_size :: u32
  cd_uncompressed_size :: u32
  cd_fname_length :: u16
  cd_extra_field_length :: u16
  cd_comment_length :: u16
  cd_disk_num :: u16
  cd_internal_attributes :: u16
  cd_external_attributes :: u32
  cd_local_header_offset :: u32


text \<open>
  The output callback \<^verbatim>\<open>zip_out_cb_t\<close> takes the caller's context and a buffer and answers
  success or failure. The context is whatever the callback reads and changes, so the model
  hands it in and gets it back.
\<close>

type_synonym 'c zip_out_cb_t = "'c \<Rightarrow> u8 list \<Rightarrow> bool \<times> 'c"

text \<open>
  zlib is not part of the repository; the encoder is modelled over any implementation of
  the four entry points it calls. Of \<^verbatim>\<open>z_stream\<close> the encoder sets the input
  (\<^verbatim>\<open>next_in\<close>, \<^verbatim>\<open>avail_in\<close>) and the output buffer; the rest is the library's own state.
  \<^item> \<open>crc32 c buf\<close>: \<open>buf = None\<close> is the call with \<^verbatim>\<open>Z_NULL\<close>.
  \<^item> \<open>deflateInit2\<close>: the return code and the fresh state.
  \<^item> \<open>deflateReset\<close>: the return code and the stream after the reset.
  \<^item> \<open>deflate strm flush\<close>: the return code, the bytes put into the output buffer, and the
    stream afterwards.
\<close>

datatype flush = Z_NO_FLUSH | Z_FINISH

definition Z_OK :: int where
  "Z_OK = 0"

record 'z z_stream =
  next_in :: "u8 list"
  state :: 'z

record 'z zlib =
  crc32 :: "u32 \<Rightarrow> u8 list option \<Rightarrow> u32"
  deflateInit2 :: "int \<times> 'z"
  deflateReset :: "'z z_stream \<Rightarrow> int \<times> 'z z_stream"
  deflate :: "'z z_stream \<Rightarrow> flush \<Rightarrow> int \<times> u8 list \<times> 'z z_stream"

text \<open>
  \<^verbatim>\<open>zip_t\<close>. \<^verbatim>\<open>out_buffer\<close> is scratch space that lives only between a \<^verbatim>\<open>deflate\<close> call and
  the callback that drains it, so it is a local value of the drain loop below.
\<close>

record ('c, 'z) zip_t =
  stream :: "'z z_stream"
  out_cb :: "'c zip_out_cb_t"
  out_cb_ctx :: 'c
  entries :: "zip_entry_t varray_t"
  bytes_written :: size_t
  central_dir_offset :: size_t
  entry_opened :: bool

section \<open>ZIP encoder: little-endian output\<close>

definition write16_le :: "'c zip_out_cb_t \<Rightarrow> 'c \<Rightarrow> u16 \<Rightarrow> bool \<times> 'c" where
  "write16_le cb cb_ctx input = cb cb_ctx [ucast input, ucast (drop_bit 8 input)]"

definition write32_le :: "'c zip_out_cb_t \<Rightarrow> 'c \<Rightarrow> u32 \<Rightarrow> bool \<times> 'c" where
  "write32_le cb cb_ctx input =
     cb cb_ctx [ucast input, ucast (drop_bit 8 input), ucast (drop_bit 16 input),
                ucast (drop_bit 24 input)]"

definition write64_le :: "'c zip_out_cb_t \<Rightarrow> 'c \<Rightarrow> u64 \<Rightarrow> bool \<times> 'c" where
  "write64_le cb cb_ctx input =
     cb cb_ctx [ucast input, ucast (drop_bit 8 input), ucast (drop_bit 16 input),
                ucast (drop_bit 24 input), ucast (drop_bit 32 input), ucast (drop_bit 40 input),
                ucast (drop_bit 48 input), ucast (drop_bit 56 input)]"

text \<open>
  \<^verbatim>\<open>WRITE_LE( count, cb, cb_ctx, n )\<close> passes \<^verbatim>\<open>&n\<close> and \<^verbatim>\<open>sizeof( n )\<close> to \<^verbatim>\<open>_write_le\<close>, which
  adds the size to the counter and switches on it. An \<open>le_input\<close> is that pair of pointer
  and size; \<open>Other n\<close> is an operand of any size but 2, 4 or 8, for which \<^verbatim>\<open>_write_le\<close>
  returns false without calling the callback.
\<close>

datatype le_input = In16 u16 | In32 u32 | In64 u64 | Other nat

fun input_size :: "le_input \<Rightarrow> nat" where
  "input_size (In16 n) = 2"
| "input_size (In32 n) = 4"
| "input_size (In64 n) = 8"
| "input_size (Other k) = k"

fun write_le :: "size_t \<Rightarrow> 'c zip_out_cb_t \<Rightarrow> 'c \<Rightarrow> le_input \<Rightarrow> bool \<times> size_t \<times> 'c" where
  "write_le count cb cb_ctx (In16 n) =
     (case write16_le cb cb_ctx n of (ok, ctx') \<Rightarrow> (ok, count + 2, ctx'))"
| "write_le count cb cb_ctx (In32 n) =
     (case write32_le cb cb_ctx n of (ok, ctx') \<Rightarrow> (ok, count + 4, ctx'))"
| "write_le count cb cb_ctx (In64 n) =
     (case write64_le cb cb_ctx n of (ok, ctx') \<Rightarrow> (ok, count + 8, ctx'))"
| "write_le count cb cb_ctx (Other k) = (False, count + of_nat k, cb_ctx)"

text \<open>
  The chains \<^verbatim>\<open>!WRITE_LE( .., a ) || !WRITE_LE( .., b ) || ...\<close>: the fields are written in
  order and the chain stops at the first write that fails. The result is whether every
  write succeeded, the counter and the callback's context.
\<close>

fun write_fields :: "'c zip_out_cb_t \<Rightarrow> size_t \<Rightarrow> 'c \<Rightarrow> le_input list \<Rightarrow> bool \<times> size_t \<times> 'c" where
  "write_fields cb count cb_ctx [] = (True, count, cb_ctx)"
| "write_fields cb count cb_ctx (n # ns) =
     (case write_le count cb cb_ctx n of
        (ok, count', ctx') \<Rightarrow>
          if ok then write_fields cb count' ctx' ns else (False, count', ctx'))"

section \<open>ZIP encoder: MS-DOS date and time\<close>

text \<open>
  \<^verbatim>\<open>uint16_t time = ...; time |= ...\<close>: the right-hand sides are computed in \<^verbatim>\<open>unsigned\<close>
  (32 bits) and every assignment converts to 16 bits.
\<close>

definition get_dos_time :: "zip_datetime \<Rightarrow> u16" where
  "get_dos_time dt =
     (let time0 = (ucast ((seconds dt div 2) AND 0x1f) :: u16);
          time1 = (ucast ((ucast time0 :: u32) OR push_bit 5 (minutes dt AND 0x3f)) :: u16);
          time2 = (ucast ((ucast time1 :: u32) OR push_bit 11 (hours dt AND 0x1f)) :: u16)
      in time2)"

definition get_dos_date :: "zip_datetime \<Rightarrow> u16" where
  "get_dos_date dt =
     (let date0 = (ucast (day dt AND 0x1f) :: u16);
          date1 = (ucast ((ucast date0 :: u32) OR push_bit 5 (month dt AND 0x0f)) :: u16);
          date2 = (ucast ((ucast date1 :: u32) OR push_bit 9 ((year dt - 1980) AND 0x7f)) :: u16)
      in date2)"

section \<open>ZIP encoder: operations\<close>

text \<open>
  \<^verbatim>\<open>CUR_ENTRY( z )\<close> is \<^verbatim>\<open>varray_last( z->entries )\<close>, read and assigned in place. With no
  entry in the array it indexes out of the buffer; \<open>None\<close> stands for that.
\<close>

definition CUR_ENTRY :: "('c, 'z) zip_t \<Rightarrow> zip_entry_t option" where
  "CUR_ENTRY z = varray_last (entries z)"

definition CUR_ENTRY_set :: "('c, 'z) zip_t \<Rightarrow> zip_entry_t \<Rightarrow> ('c, 'z) zip_t" where
  "CUR_ENTRY_set z e =
     z\<lparr>entries := (entries z)\<lparr>data := (data (entries z))[va_len (entries z) - 1 := e]\<rparr>\<rparr>"

text \<open>
  The functions that reach the drain loop answer an option: \<open>Some (r, z')\<close> is a return
  of \<open>r\<close> in state \<open>z'\<close>; \<open>None\<close> is a call with no defined return (the loop never ends, or
  \<^verbatim>\<open>CUR_ENTRY\<close> is used on an empty array).

  The do-while loop of \<^verbatim>\<open>_deflate\<close>. \<^verbatim>\<open>deflate\<close> can put at most \<^verbatim>\<open>avail_out\<close> =
  \<^verbatim>\<open>ZIP_INTERNAL_BUFFER_SIZE\<close> bytes into the buffer, and \<^verbatim>\<open>out_size\<close> is the buffer size
  minus the \<^verbatim>\<open>avail_out\<close> it leaves.
\<close>

partial_function (option) deflate_loop ::
  "'z zlib \<Rightarrow> flush \<Rightarrow> ('c, 'z) zip_t \<Rightarrow> (bool \<times> ('c, 'z) zip_t) option" where
  "deflate_loop Z fl z =
     (case deflate Z (stream z) fl of
        (rc, produced, strm) \<Rightarrow>
          let out_buffer = take ZIP_INTERNAL_BUFFER_SIZE produced;
              avail_out = ZIP_INTERNAL_BUFFER_SIZE - length out_buffer;
              z1 = z\<lparr>stream := strm\<rparr>
          in if rc < 0 then Some (False, z1)
             else
               let out_size = ZIP_INTERNAL_BUFFER_SIZE - avail_out
               in case out_cb z1 (out_cb_ctx z1) (take out_size out_buffer) of
                    (ok, ctx') \<Rightarrow>
                      let z2 = z1\<lparr>out_cb_ctx := ctx'\<rparr>
                      in if \<not> ok then Some (False, z2)
                         else
                           (case CUR_ENTRY z2 of
                              None \<Rightarrow> None
                            | Some e \<Rightarrow>
                                (let z3 = CUR_ENTRY_set z2
                                           (e\<lparr>size_compressed := size_compressed e + of_nat out_size\<rparr>);
                                     z4 = z3\<lparr>bytes_written := bytes_written z3 + of_nat out_size\<rparr>
                                 in if avail_out = 0 then deflate_loop Z fl z4
                                    else Some (True, z4))))"

declare deflate_loop.simps [code]

text \<open>
  \<^verbatim>\<open>_deflate\<close>. The size counter is advanced by the whole \<^verbatim>\<open>data_len\<close>, whereas
  \<^verbatim>\<open>avail_in\<close> is a \<^verbatim>\<open>uInt\<close>: the stream is given the first \<^verbatim>\<open>avail_in\<close> bytes of the buffer.
\<close>

definition deflate' ::
  "'z zlib \<Rightarrow> ('c, 'z) zip_t \<Rightarrow> flush \<Rightarrow> u8 list \<Rightarrow> (bool \<times> ('c, 'z) zip_t) option" where
  "deflate' Z z fl data_in =
     (case CUR_ENTRY z of
        None \<Rightarrow> None
      | Some e \<Rightarrow>
          let data_len = length data_in;
              z1 = CUR_ENTRY_set z (e\<lparr>size' := size' e + of_nat data_len\<rparr>);
              avail_in = uInt data_len;
              z2 = z1\<lparr>stream := (stream z1)\<lparr>next_in := take avail_in data_in\<rparr>\<rparr>
          in deflate_loop Z fl z2)"

text \<open>
  \<^verbatim>\<open>_write_cd_file_header\<close>. Its only caller is the loop of \<^verbatim>\<open>zip_end\<close>, which passes
  indices below the length of the array.
\<close>

definition central_data :: "zip_entry_t \<Rightarrow> zip_central_dir" where
  "central_data e =
     \<lparr>cd_signature = 0x02014b50,
      cd_made_by = 0,
      cd_extract_version = 20,
      cd_flags = push_bit 3 1,
      cd_method = 8,
      cd_modif_time = time e,
      cd_modif_date = date e,
      cd_crc = crc e,
      cd_compressed_size = size_compressed e,
      cd_uncompressed_size = size' e,
      cd_fname_length = of_nat (strlen (name e)),
      cd_extra_field_length = 0,
      cd_comment_length = 0,
      cd_disk_num = 0,
      cd_internal_attributes = 0,
      cd_external_attributes = 0,
      cd_local_header_offset = offset e\<rparr>"

definition central_data_fields :: "zip_central_dir \<Rightarrow> le_input list" where
  "central_data_fields c =
     [In32 (cd_signature c), In16 (cd_made_by c), In16 (cd_extract_version c),
      In16 (cd_flags c), In16 (cd_method c), In16 (cd_modif_time c), In16 (cd_modif_date c),
      In32 (cd_crc c), In32 (cd_compressed_size c), In32 (cd_uncompressed_size c),
      In16 (cd_fname_length c), In16 (cd_extra_field_length c), In16 (cd_comment_length c),
      In16 (cd_disk_num c), In16 (cd_internal_attributes c), In32 (cd_external_attributes c),
      In32 (cd_local_header_offset c)]"










definition lf_header_fields :: "zip_local_file_header \<Rightarrow> le_input list" where
  "lf_header_fields h =
     [In32 (lf_signature h), In16 (lf_extract_version h), In16 (lf_flags h), In16 (lf_method h),
      In16 (lf_modif_time h), In16 (lf_modif_date h), In32 (lf_crc h),
      In32 (lf_compressed_size h), In32 (lf_uncompressed_size h), In16 (lf_fname_length h),
      In16 (lf_extra_field_length h)]"

text \<open>
  \<^verbatim>\<open>zip_entry_add\<close>. Its locals \<^verbatim>\<open>entry_name_len\<close>, \<^verbatim>\<open>entry\<close> and \<^verbatim>\<open>lf_header\<close> are definitions
  of their own, so that statements can name them.
\<close>

definition add_entry_name_len :: "u8 list \<Rightarrow> nat" where
  "add_entry_name_len filename =
     (let entry_name_len = strlen filename
      in if entry_name_len > ZIP_ENTRY_MAX_NAME_LEN then ZIP_ENTRY_MAX_NAME_LEN
         else entry_name_len)"

definition add_entry ::
  "'z zlib \<Rightarrow> ('c, 'z) zip_t \<Rightarrow> u8 list \<Rightarrow> zip_datetime \<Rightarrow> zip_entry_t" where
  "add_entry Z z filename datetime =
     \<lparr>offset = ucast (bytes_written z),
      crc = crc32 Z 0 None,
      size' = 0,
      size_compressed = 0,
      name = take (add_entry_name_len filename) filename @ [0],
      time = get_dos_time datetime,
      date = get_dos_date datetime\<rparr>"

definition add_lf_header :: "zip_entry_t \<Rightarrow> nat \<Rightarrow> zip_local_file_header" where
  "add_lf_header entry entry_name_len =
     \<lparr>lf_signature = 0x04034b50,
      lf_extract_version = 20,
      lf_flags = push_bit 3 1,
      lf_method = 8,
      lf_modif_time = time entry,
      lf_modif_date = date entry,
      lf_crc = 0,
      lf_compressed_size = 0,
      lf_uncompressed_size = 0,
      lf_fname_length = of_nat entry_name_len,
      lf_extra_field_length = 0\<rparr>"

definition zip_entry_add ::
  "'z zlib \<Rightarrow> ('c, 'z) zip_t \<Rightarrow> u8 list \<Rightarrow> zip_datetime \<Rightarrow> bool \<times> ('c, 'z) zip_t" where
  "zip_entry_add Z z filename datetime =
     (if entry_opened z then (False, z)
      else
        let entry_name_len = add_entry_name_len filename;
            entry = add_entry Z z filename datetime;
            lf_header = add_lf_header entry entry_name_len
        in case write_fields (out_cb z) 0 (out_cb_ctx z) (lf_header_fields lf_header) of
             (ok, bytes_written', ctx1) \<Rightarrow>
               if \<not> ok then (False, z\<lparr>out_cb_ctx := ctx1\<rparr>)
               else
                 (case out_cb z ctx1 (take (unat (lf_fname_length lf_header)) (name entry)) of
                    (ok2, ctx2) \<Rightarrow>
                      if \<not> ok2 then (False, z\<lparr>out_cb_ctx := ctx2\<rparr>)
                      else
                        let z1 = z\<lparr>out_cb_ctx := ctx2,
                                  entry_opened := True,
                                  entries := varray_push (entries z) entry,
                                  bytes_written :=
                                    bytes_written z
                                      + (bytes_written' + ucast (lf_fname_length lf_header))\<rparr>
                        in (case deflateReset Z (stream z1) of
                              (rc, strm) \<Rightarrow> (rc = Z_OK, z1\<lparr>stream := strm\<rparr>))))"

text \<open>
  \<^verbatim>\<open>zip_entry_update\<close>. The length parameter of \<^verbatim>\<open>crc32\<close> is a \<^verbatim>\<open>uInt\<close>, so the checksum
  covers the first \<open>uInt data_len\<close> bytes of the buffer.
\<close>

definition zip_entry_update ::
  "'z zlib \<Rightarrow> ('c, 'z) zip_t \<Rightarrow> u8 list \<Rightarrow> (bool \<times> ('c, 'z) zip_t) option" where
  "zip_entry_update Z z data_in =
     (if \<not> entry_opened z then Some (False, z)
      else if length data_in = 0 then Some (True, z)
      else
        (case CUR_ENTRY z of
           None \<Rightarrow> None
         | Some e \<Rightarrow>
             let data_len = length data_in;
                 crc' = crc32 Z (crc e) (Some (take (uInt data_len) data_in))
             in deflate' Z (CUR_ENTRY_set z (e\<lparr>crc := crc'\<rparr>)) Z_NO_FLUSH data_in))"

definition data_desc_signature :: u32 where
  "data_desc_signature = 0x08074b50"

definition zip_entry_end :: "'z zlib \<Rightarrow> ('c, 'z) zip_t \<Rightarrow> (bool \<times> ('c, 'z) zip_t) option" where
  "zip_entry_end Z z =
     (if \<not> entry_opened z then Some (True, z)
      else
        (case deflate' Z z Z_FINISH [] of
           None \<Rightarrow> None
         | Some (ok, z1) \<Rightarrow>
             if \<not> ok then Some (False, z1)
             else
               (case CUR_ENTRY z1 of
                  None \<Rightarrow> None
                | Some e \<Rightarrow>
                    (case write_fields (out_cb z1) 0 (out_cb_ctx z1)
                            [In32 data_desc_signature, In32 (crc e), In32 (size_compressed e),
                             In32 (size' e)] of
                       (ok2, bytes_written', ctx1) \<Rightarrow>
                         if \<not> ok2 then Some (False, z1\<lparr>out_cb_ctx := ctx1\<rparr>)
                         else Some (True, z1\<lparr>out_cb_ctx := ctx1,
                                              bytes_written := bytes_written z1 + bytes_written',
                                              entry_opened := False\<rparr>)))))"

definition zip_get_num_entries :: "('c, 'z) zip_t \<Rightarrow> nat" where
  "zip_get_num_entries z = va_len (entries z)"

section \<open>Observing the sink\<close>

text \<open>
  What the encoder hands to the callback is observed by wrapping the callback: \<open>recording cb\<close>
  behaves as \<open>cb\<close> and keeps, in front of \<open>cb\<close>'s own context, the list of all calls made
  so far, each with the buffer passed and the answer given.
\<close>

type_synonym sink_log = "(u8 list \<times> bool) list"

definition recording :: "'c zip_out_cb_t \<Rightarrow> (sink_log \<times> 'c) zip_out_cb_t" where
  "recording cb = (\<lambda>(log, c) d. case cb c d of (ok, c') \<Rightarrow> (ok, (log @ [(d, ok)], c')))"

definition sink_log :: "(sink_log \<times> 'c, 'z) zip_t \<Rightarrow> sink_log" where
  "sink_log z = fst (out_cb_ctx z)"



section \<open>Test doubles\<close>

text \<open>
  A sink that accepts every write, and a sink that accepts its first \<open>n\<close> writes and
  rejects all later ones (its context counts the calls).
\<close>

definition accept_all :: "unit zip_out_cb_t" where
  "accept_all = (\<lambda>c d. (True, c))"


text \<open>
  A stand-in for zlib that copies its input to the output buffer, one buffer at a time, and
  whose checksum adds up the bytes; and one whose \<^verbatim>\<open>deflateReset\<close> fails with
  \<^verbatim>\<open>Z_STREAM_ERROR\<close>.
\<close>

definition copy_zlib :: "unit zlib" where
  "copy_zlib =
     \<lparr>crc32 = (\<lambda>c buf. case buf of None \<Rightarrow> 0 | Some bs \<Rightarrow> foldl (\<lambda>a b. a + ucast b) c bs),
      deflateInit2 = (0, ()),
      deflateReset = (\<lambda>strm. (0, strm\<lparr>next_in := []\<rparr>)),
      deflate = (\<lambda>strm fl. (0, take ZIP_INTERNAL_BUFFER_SIZE (next_in strm),
                           strm\<lparr>next_in := drop ZIP_INTERNAL_BUFFER_SIZE (next_in strm)\<rparr>))\<rparr>"

definition bad_reset_zlib :: "unit zlib" where
  "bad_reset_zlib = copy_zlib\<lparr>deflateReset := (\<lambda>strm. (- 2, strm))\<rparr>"



section \<open>Sequences of calls\<close>







section \<open>Auxiliary definitions for the statements\<close>

text \<open>The buffer that \<^verbatim>\<open>_write16_le\<close>, \<^verbatim>\<open>_write32_le\<close> and \<^verbatim>\<open>_write64_le\<close> hand to the callback.\<close>

fun le_bytes :: "le_input \<Rightarrow> u8 list" where
  "le_bytes (In16 n) = [ucast n, ucast (drop_bit 8 n)]"
| "le_bytes (In32 n) = [ucast n, ucast (drop_bit 8 n), ucast (drop_bit 16 n), ucast (drop_bit 24 n)]"
| "le_bytes (In64 n) =
     [ucast n, ucast (drop_bit 8 n), ucast (drop_bit 16 n), ucast (drop_bit 24 n),
      ucast (drop_bit 32 n), ucast (drop_bit 40 n), ucast (drop_bit 48 n), ucast (drop_bit 56 n)]"
| "le_bytes (Other k) = []"

fun sized :: "le_input \<Rightarrow> bool" where
  "sized (Other k) = False"
| "sized n = True"

text \<open>A run of calls that the sink accepted, as it shows in the log.\<close>

definition oks :: "u8 list list \<Rightarrow> sink_log" where
  "oks chunks = map (\<lambda>d. (d, True)) chunks"




text \<open>
  The shape of an array grown by pushes from capacity 1: the capacity is a power of two, the
  length fits, and more than half of the capacity is in use once the array has grown.
\<close>

definition grown :: "'a varray_t \<Rightarrow> bool" where
  "grown va =
     (\<exists>j. va_cap va = 2 ^ j \<and> va_len va \<le> 2 ^ j \<and> (0 < j \<longrightarrow> 2 ^ (j - 1) < va_len va))"

text \<open>Fixtures: a date, a name, and the encoder right after \<^verbatim>\<open>zip_init\<close> and with one entry open.\<close>

definition dt0 :: zip_datetime where
  "dt0 = \<lparr>year = 2024, month = 1, day = 15, hours = 10, minutes = 30, seconds = 0\<rparr>"

definition a_txt :: "u8 list" where
  "a_txt = [0x61, 0x2e, 0x74, 0x78, 0x74]"

definition idle_state :: "(sink_log \<times> unit, unit) zip_t" where
  "idle_state =
     \<lparr>stream = \<lparr>next_in = [], state = ()\<rparr>,
      out_cb = recording accept_all,
      out_cb_ctx = ([], ()),
      entries = varray_init 1,
      bytes_written = 0,
      central_dir_offset = 0,
      entry_opened = False\<rparr>"

definition open_state :: "(sink_log \<times> unit, unit) zip_t" where
  "open_state = snd (zip_entry_add copy_zlib idle_state a_txt dt0)"

text \<open>
  What a run of the drain loop may change, for a recording sink: \<open>drained z ok z'\<close> says that
  from \<open>z\<close> to \<open>z'\<close> the sink accepted the chunks \<open>chunks\<close> (and, unless \<open>ok\<close>, was then
  possibly passed more), \<^verbatim>\<open>bytes_written\<close> and the compressed size of the current entry grew
  by the total length of \<open>chunks\<close>, and, the stream and the sink's context apart, nothing
  else differs.
\<close>

definition drained ::
  "(sink_log \<times> 'c, 'z) zip_t \<Rightarrow> bool \<Rightarrow> (sink_log \<times> 'c, 'z) zip_t \<Rightarrow> bool" where
  "drained z ok z' =
     (\<exists>chunks rest e.
        CUR_ENTRY z = Some e \<and>
        sink_log z' = sink_log z @ oks chunks @ rest \<and>
        (ok \<longrightarrow> rest = []) \<and>
        bytes_written z' = bytes_written z + of_nat (length (concat chunks)) \<and>
        z'\<lparr>stream := stream z, out_cb_ctx := out_cb_ctx z, bytes_written := bytes_written z\<rparr>
          = CUR_ENTRY_set z
              (e\<lparr>size_compressed := size_compressed e + of_nat (length (concat chunks))\<rparr>))"


text \<open>
  More fixtures: the state a call leaves behind, and an encoder right after \<^verbatim>\<open>zip_init\<close>
  whose sink accepts \<open>n\<close> writes and then rejects.
\<close>

definition after :: "(bool \<times> 's) option \<Rightarrow> 's \<Rightarrow> 's" where
  "after r s = (case r of Some (ok, s') \<Rightarrow> s' | None \<Rightarrow> s)"






text \<open>
  The sink writes of one central-directory record: its seventeen fields and the name. The
  name an entry cycle stores. \<open>accounted z z'\<close>: from \<open>z\<close> to \<open>z'\<close> the sink accepted some
  chunks and \<^verbatim>\<open>bytes_written\<close> advanced by their total length.
\<close>

definition cd_record :: "zip_entry_t \<Rightarrow> u8 list list" where
  "cd_record e =
     map le_bytes (central_data_fields (central_data e)) @ [take (strlen (name e)) (name e)]"








definition full_entry :: zip_entry_t where
  "full_entry =
     \<lparr>offset = 0, crc = 0, size' = 0xFFFFFFFE, size_compressed = 0xFFFFFFFF,
      name = [0x61, 0], time = 0, date = 0\<rparr>"

definition full_state :: "(sink_log \<times> unit, unit) zip_t" where
  "full_state = idle_state\<lparr>entries := \<lparr>capacity = 1, data = [full_entry]\<rparr>, entry_opened := True\<rparr>"

definition fed_full_state :: "(sink_log \<times> unit, unit) zip_t" where
  "fed_full_state = after (zip_entry_update copy_zlib full_state [1, 2, 3]) full_state"


section \<open>Facts about the fixtures\<close>


lemma idle_state_closed: "\<not> entry_opened idle_state"
  by (simp add: idle_state_def)

lemma open_state_opened: "entry_opened open_state"
  by code_simp

section \<open>The growable array\<close>

lemma data_varray_push: "data (varray_push va x) = data va @ [x]"
  by (simp add: varray_push_def resize_if_req_def va_double_size_def varray_resize_def Let_def)

lemma va_cap_varray_push:
  "va_cap (varray_push va x) = (if va_cap va \<le> va_len va then va_len va * 2 else va_cap va)"
  by (simp add: varray_push_def resize_if_req_def va_double_size_def varray_resize_def Let_def
      va_cap_def va_len_def)

lemma va_len_varray_push: "va_len (varray_push va x) = va_len va + 1"
  by (simp add: va_len_def data_varray_push)

lemma push_all_snoc: "push_all va (xs @ [x]) = varray_push (push_all va xs) x"
  by (simp add: push_all_def)

lemma data_push_all: "data (push_all va xs) = data va @ xs"
proof (induction xs rule: rev_induct)
  case Nil
  show ?case by (simp add: push_all_def)
next
  case (snoc x xs)
  then show ?case by (simp add: push_all_snoc data_varray_push)
qed

lemma grown_init: "grown (varray_init 1)"
  unfolding grown_def by (rule exI [of _ 0]) (simp add: varray_init_def va_cap_def va_len_def)

lemma grown_push:
  assumes "grown va"
  shows "grown (varray_push va x)"
proof -
  from assms obtain j where c: "va_cap va = 2 ^ j" and l: "va_len va \<le> 2 ^ j"
    and g: "0 < j \<longrightarrow> 2 ^ (j - 1) < va_len va"
    unfolding grown_def by blast
  show ?thesis
  proof (cases "va_cap va \<le> va_len va")
    case True
    with c l have e: "va_len va = 2 ^ j" by simp
    show ?thesis unfolding grown_def
      using True by (intro exI [of _ "Suc j"]) (simp add: va_cap_varray_push va_len_varray_push e)
  next
    case False
    with c have "va_len va < 2 ^ j" by simp
    with g show ?thesis unfolding grown_def
      by (intro exI [of _ j]) (auto simp add: va_cap_varray_push va_len_varray_push False c)
  qed
qed

lemma grown_push_all: "grown va \<Longrightarrow> grown (push_all va xs)"
proof (induction xs rule: rev_induct)
  case Nil
  then show ?case by (simp add: push_all_def)
next
  case (snoc x xs)
  then show ?case by (simp add: push_all_snoc grown_push)
qed

lemma grown_cap:
  assumes "grown va" "va_len va = 2 ^ k + 1"
  shows "va_cap va = 2 ^ (k + 1)"
proof -
  from assms obtain j where c: "va_cap va = 2 ^ j" and l: "2 ^ k + 1 \<le> (2::nat) ^ j"
    and g: "0 < j \<longrightarrow> (2::nat) ^ (j - 1) < 2 ^ k + 1"
    unfolding grown_def by auto
  from l have "(2::nat) ^ k < 2 ^ j" by linarith
  then have kj: "k < j" by simp
  with g have "(2::nat) ^ (j - 1) < 2 ^ k + 1" by simp
  then have "(2::nat) ^ (j - 1) \<le> 2 ^ k" by linarith
  then have "j - 1 \<le> k" by simp
  with kj have "j = k + 1" by linarith
  with c show ?thesis by simp
qed

lemma varray_pop_nonempty:
  "va_len va \<noteq> 0 \<Longrightarrow>
   varray_pop va = Some (last (data va), va\<lparr>data := butlast (data va)\<rparr>)"
  by (simp add: varray_pop_def va_len_def last_conv_nth)

text \<open>
  C7. Pushing \<open>2 ^ k + 1\<close> elements one at a time into an array initialised with capacity 1
  leaves the capacity at exactly \<open>2 ^ (k + 1)\<close> and the elements in the order pushed. A push
  sets the capacity to twice the length when the array is full and leaves it alone otherwise,
  so in an array whose length is within its capacity a push doubles the capacity at most
  once; it keeps the stored elements and their order and puts the new one last. A pop right
  after a push gives back the element pushed, and a pop from any non-empty array gives its
  last element and leaves the others, one fewer.
\<close>

theorem varray_push_pop:
  "(length xs = 2 ^ k + 1 \<longrightarrow>
      va_cap (push_all (varray_init 1) xs) = 2 ^ (k + 1) \<and>
      data (push_all (varray_init 1) xs) = xs) \<and>
   va_cap (varray_push va x) = (if va_cap va \<le> va_len va then va_len va * 2 else va_cap va) \<and>
   (va_len va \<le> va_cap va \<longrightarrow>
      va_cap (varray_push va x) = va_cap va \<or> va_cap (varray_push va x) = 2 * va_cap va) \<and>
   data (varray_push va x) = data va @ [x] \<and>
   varray_pop (varray_push va x) = Some (x, (varray_push va x)\<lparr>data := data va\<rparr>) \<and>
   (va_len vb \<noteq> 0 \<longrightarrow>
      (\<exists>vb'. varray_pop vb = Some (last (data vb), vb') \<and> va_len vb' = va_len vb - 1 \<and>
             data vb' = butlast (data vb) \<and> va_cap vb' = va_cap vb))"
proof (intro conjI impI)
  assume len: "length xs = 2 ^ k + 1"
  have "grown (push_all (varray_init 1 :: 'a varray_t) xs)"
    by (rule grown_push_all [OF grown_init])
  moreover have "va_len (push_all (varray_init 1 :: 'a varray_t) xs) = 2 ^ k + 1"
    by (simp add: va_len_def data_push_all varray_init_def len)
  ultimately show "va_cap (push_all (varray_init 1) xs) = 2 ^ (k + 1)"
    by (rule grown_cap)
  show "data (push_all (varray_init 1) xs) = xs"
    by (simp add: data_push_all varray_init_def)
next
  show "va_cap (varray_push va x) = (if va_cap va \<le> va_len va then va_len va * 2 else va_cap va)"
    by (rule va_cap_varray_push)
next
  assume "va_len va \<le> va_cap va"
  then show "va_cap (varray_push va x) = va_cap va \<or> va_cap (varray_push va x) = 2 * va_cap va"
    by (auto simp add: va_cap_varray_push)
next
  show "data (varray_push va x) = data va @ [x]"
    by (rule data_varray_push)
next
  have "va_len (varray_push va x) \<noteq> 0"
    by (simp add: va_len_varray_push)
  then show "varray_pop (varray_push va x) = Some (x, (varray_push va x)\<lparr>data := data va\<rparr>)"
    by (simp add: varray_pop_nonempty data_varray_push)
next
  assume ne: "va_len vb \<noteq> 0"
  show "\<exists>vb'. varray_pop vb = Some (last (data vb), vb') \<and> va_len vb' = va_len vb - 1 \<and>
             data vb' = butlast (data vb) \<and> va_cap vb' = va_cap vb"
    by (rule exI [of _ "vb\<lparr>data := butlast (data vb)\<rparr>"])
       (simp add: varray_pop_nonempty [OF ne] va_len_def va_cap_def)
qed

theorem varray_push_pop_witness:
  "va_cap (push_all (varray_init 1) [10, 20, 30, 40, 50 :: nat]) = 8 \<and>
   data (push_all (varray_init 1) [10, 20, 30, 40, 50 :: nat]) = [10, 20, 30, 40, 50] \<and>
   va_cap (varray_push \<lparr>capacity = 2, data = [10, 20 :: nat]\<rparr> 30) = 4 \<and>
   data (varray_push \<lparr>capacity = 2, data = [10, 20 :: nat]\<rparr> 30) = [10, 20, 30] \<and>
   varray_pop \<lparr>capacity = 4, data = [10, 20, 30 :: nat]\<rparr>
     = Some (30, \<lparr>capacity = 4, data = [10, 20]\<rparr>)"
  using varray_push_pop [of "[10, 20, 30, 40, 50 :: nat]" 2
      "\<lparr>capacity = 2, data = [10, 20 :: nat]\<rparr>" 30 "\<lparr>capacity = 4, data = [10, 20, 30 :: nat]\<rparr>"]
  by (auto simp add: va_len_def va_cap_def)

section \<open>MS-DOS date and time\<close>

lemma masks32:
  "(0x1f :: 32 word) = mask 5" "(0x3f :: 32 word) = mask 6"
  "(0x0f :: 32 word) = mask 4" "(0x7f :: 32 word) = mask 7"
  by (simp_all add: mask_eq_exp_minus_1)

lemma get_dos_date_bit:
  "bit (get_dos_date dt) n =
     ((n < 5 \<and> bit (day dt) n) \<or>
      (5 \<le> n \<and> n < 9 \<and> bit (month dt) (n - 5)) \<or>
      (9 \<le> n \<and> n < 16 \<and> bit (year dt - 1980) (n - 9)))"
  unfolding get_dos_date_def Let_def masks32
  by (simp add: bit_simps) linarith

lemma get_dos_time_bit:
  "bit (get_dos_time dt) n =
     ((n < 5 \<and> bit (seconds dt div 2) n) \<or>
      (5 \<le> n \<and> n < 11 \<and> bit (minutes dt) (n - 5)) \<or>
      (11 \<le> n \<and> n < 16 \<and> bit (hours dt) (n - 11)))"
  unfolding get_dos_time_def Let_def masks32
  by (simp add: bit_simps) linarith

text \<open>
  C8. For every datetime and every bit position \<open>n\<close>: bit \<open>n\<close> of the packed date is bit \<open>n\<close>
  of the day for \<open>n\<close> in 0..4, bit \<open>n - 5\<close> of the month for \<open>n\<close> in 5..8 and bit \<open>n - 9\<close> of
  year - 1980 (in \<^verbatim>\<open>unsigned\<close> arithmetic) for \<open>n\<close> in 9..15; bit \<open>n\<close> of the packed time is
  bit \<open>n\<close> of seconds / 2 for \<open>n\<close> in 0..4, bit \<open>n - 5\<close> of the minutes for \<open>n\<close> in 5..10 and
  bit \<open>n - 11\<close> of the hours for \<open>n\<close> in 11..15. A field of the input that does not fit its
  bit range keeps its low bits only; no field spills into another.
\<close>

theorem dos_date_time_layout:
  "(bit (get_dos_date dt) n =
     ((n < 5 \<and> bit (day dt) n) \<or>
      (5 \<le> n \<and> n < 9 \<and> bit (month dt) (n - 5)) \<or>
      (9 \<le> n \<and> n < 16 \<and> bit (year dt - 1980) (n - 9)))) \<and>
   (bit (get_dos_time dt) n =
     ((n < 5 \<and> bit (seconds dt div 2) n) \<or>
      (5 \<le> n \<and> n < 11 \<and> bit (minutes dt) (n - 5)) \<or>
      (11 \<le> n \<and> n < 16 \<and> bit (hours dt) (n - 11))))"
  using get_dos_date_bit [of dt n] get_dos_time_bit [of dt n] by blast

section \<open>Sequencing errors and empty updates\<close>

text \<open>
  C4. \<^verbatim>\<open>zip_entry_add\<close> on an encoder with an entry open returns false and the encoder is
  exactly as before (entries, the open entry's record, \<^verbatim>\<open>bytes_written\<close>, \<^verbatim>\<open>entry_opened\<close>,
  and the sink's context, so the sink was not called). With no entry open,
  \<^verbatim>\<open>zip_entry_update\<close> returns false and \<^verbatim>\<open>zip_entry_end\<close> returns true, and the encoder is
  exactly as before.
\<close>

theorem sequencing_errors:
  "(entry_opened z \<longrightarrow> zip_entry_add Z z filename datetime = (False, z)) \<and>
   (\<not> entry_opened y \<longrightarrow> zip_entry_update Z y data_in = Some (False, y)) \<and>
   (\<not> entry_opened y \<longrightarrow> zip_entry_end Z y = Some (True, y))"
  by (simp add: zip_entry_add_def zip_entry_update_def zip_entry_end_def)

theorem sequencing_errors_witness:
  "zip_entry_add copy_zlib open_state a_txt dt0 = (False, open_state) \<and>
   zip_entry_update copy_zlib idle_state [1, 2, 3] = Some (False, idle_state) \<and>
   zip_entry_end copy_zlib idle_state = Some (True, idle_state)"
  using sequencing_errors [of open_state copy_zlib a_txt dt0 idle_state "[1, 2, 3]"]
    open_state_opened idle_state_closed
  by blast

text \<open>
  C6. \<^verbatim>\<open>zip_entry_update\<close> with an empty input on an encoder with an entry open returns true
  and the encoder is exactly as before: the entry's CRC and size counters, \<^verbatim>\<open>bytes_written\<close>,
  the entry list and \<^verbatim>\<open>entry_opened\<close> are unchanged, and so is the sink's context; for a
  recording sink the log of calls is the same, so nothing was passed to the sink.
\<close>

theorem zero_length_update:
  "entry_opened z \<Longrightarrow> zip_entry_update Z z [] = Some (True, z)"
  by (simp add: zip_entry_update_def)

theorem zero_length_update_witness:
  "zip_entry_update copy_zlib open_state [] = Some (True, open_state)"
  using zero_length_update [of open_state copy_zlib] open_state_opened
  by blast

section \<open>Little-endian output through a recording sink\<close>

lemma length_le_bytes: "sized n \<Longrightarrow> length (le_bytes n) = input_size n"
  by (cases n) simp_all






lemma recording_apply:
  "recording cb (log, c) d = (fst (cb c d), (log @ [(d, fst (cb c d))], snd (cb c d)))"
  by (simp add: recording_def split: prod.splits)

lemma write_le_recording:
  "sized n \<Longrightarrow>
   write_le count (recording cb) (log, c) n =
     (fst (cb c (le_bytes n)), count + of_nat (input_size n),
      (log @ [(le_bytes n, fst (cb c (le_bytes n)))], snd (cb c (le_bytes n))))"
  by (cases n) (simp_all add: write16_le_def write32_le_def write64_le_def recording_apply)

lemma write_fields_recording_True:
  "write_fields (recording cb) count (log, c) ns = (True, count', ctx') \<Longrightarrow>
   fst ctx' = log @ oks (map le_bytes ns) \<and>
   count' = count + of_nat (length (concat (map le_bytes ns)))"
proof (induction ns arbitrary: count log c)
  case Nil
  then show ?case by (auto simp add: oks_def)
next
  case (Cons n ns)
  show ?case
  proof (cases "sized n")
    case False
    then obtain k where "n = Other k" by (cases n) simp_all
    with Cons.prems show ?thesis by simp
  next
    case True
    let ?r = "cb c (le_bytes n)"
    from Cons.prems True have ok: "fst ?r"
      by (auto simp add: write_le_recording split: if_splits)
    with Cons.prems True have
      "write_fields (recording cb) (count + of_nat (input_size n))
         (log @ [(le_bytes n, True)], snd ?r) ns = (True, count', ctx')"
      by (simp add: write_le_recording)
    from Cons.IH [OF this] True show ?thesis
      by (simp add: oks_def length_le_bytes)
  qed
qed

lemma write_le_accepting:
  "(\<forall>c d. fst (cb c d)) \<Longrightarrow> sized n \<Longrightarrow>
   \<exists>ctx'. write_le count cb ctx n = (True, count + of_nat (input_size n), ctx')"
  by (cases n) (simp_all add: write16_le_def write32_le_def write64_le_def case_prod_beta)

lemma write_fields_accepting:
  "(\<forall>c d. fst (cb c d)) \<Longrightarrow> (\<forall>n \<in> set ns. sized n) \<Longrightarrow>
   \<exists>ctx'. write_fields cb count ctx ns =
           (True, count + of_nat (length (concat (map le_bytes ns))), ctx')"
proof (induction ns arbitrary: count ctx)
  case Nil
  then show ?case by simp
next
  case (Cons n ns)
  from Cons.prems have s: "sized n" by simp
  from write_le_accepting [OF Cons.prems(1) s] obtain ctx1 where
    w: "write_le count cb ctx n = (True, count + of_nat (input_size n), ctx1)"
    by blast
  from Cons.IH [of "count + of_nat (input_size n)" ctx1] Cons.prems obtain ctx' where
    "write_fields cb (count + of_nat (input_size n)) ctx1 ns =
       (True, count + of_nat (input_size n) + of_nat (length (concat (map le_bytes ns))), ctx')"
    by auto
  with w s show ?case
    by (simp add: length_le_bytes add.assoc)
qed

lemma write_fields_count:
  "write_fields cb count ctx ns = (True, count', ctx') \<Longrightarrow>
   count' = count + of_nat (sum_list (map input_size ns))"
proof (induction ns arbitrary: count ctx)
  case Nil
  then show ?case by simp
next
  case (Cons n ns)
  obtain ok c1 ctx1 where w: "write_le count cb ctx n = (ok, c1, ctx1)"
    by (cases "write_le count cb ctx n") auto
  then have c1: "c1 = count + of_nat (input_size n)"
    by (cases n) (auto split: prod.splits)
  from Cons.prems w have "ok" and "write_fields cb c1 ctx1 ns = (True, count', ctx')"
    by (auto split: if_splits)
  from Cons.IH [OF this(2)] c1 show ?case by (simp add: add.assoc)
qed

section \<open>The drain loop\<close>

lemma CUR_ENTRY_Some_iff:
  "CUR_ENTRY z = Some e \<longleftrightarrow> data (entries z) \<noteq> [] \<and> e = last (data (entries z))"
  by (auto simp add: CUR_ENTRY_def varray_last_def va_len_def last_conv_nth)






lemma drained_out_cb: "drained z ok z' \<Longrightarrow> out_cb z' = out_cb z"
proof -
  assume "drained z ok z'"
  then obtain x where
    "z'\<lparr>stream := stream z, out_cb_ctx := out_cb_ctx z, bytes_written := bytes_written z\<rparr>
       = CUR_ENTRY_set z x"
    unfolding drained_def by blast
  from arg_cong [OF this, of out_cb] show ?thesis
    by (simp add: CUR_ENTRY_set_def)
qed








section \<open>Opening an entry\<close>

lemma lf_header_bytes: "length (concat (map le_bytes (lf_header_fields h))) = 30"
  by (simp add: lf_header_fields_def)

lemma central_data_bytes: "length (concat (map le_bytes (central_data_fields c))) = 46"
  by (simp add: central_data_fields_def)


lemma lf_header_sizes: "sum_list (map input_size (lf_header_fields h)) = 30"
  by (simp add: lf_header_fields_def)

lemma central_data_sizes: "sum_list (map input_size (central_data_fields c)) = 46"
  by (simp add: central_data_fields_def)

lemma add_entry_name_len_le: "add_entry_name_len filename \<le> ZIP_ENTRY_MAX_NAME_LEN"
  by (simp add: add_entry_name_len_def Let_def)

lemma add_entry_name_len_strlen: "add_entry_name_len filename \<le> strlen filename"
  by (simp add: add_entry_name_len_def Let_def)

lemma strlen_le_length: "strlen s \<le> length s"
  by (simp add: strlen_def length_takeWhile_le)

lemma fname_length_unat:
  "unat (lf_fname_length (add_lf_header e (add_entry_name_len filename)))
     = add_entry_name_len filename"
proof -
  have "add_entry_name_len filename < 2 ^ 16"
    using add_entry_name_len_le [of filename] by (simp add: ZIP_ENTRY_MAX_NAME_LEN_def)
  then show ?thesis
    by (simp add: add_lf_header_def unat_of_nat)
qed

lemma add_name_bytes:
  "take (unat (lf_fname_length (add_lf_header e (add_entry_name_len filename))))
        (name (add_entry Z z filename datetime))
     = take (add_entry_name_len filename) filename"
proof -
  have "add_entry_name_len filename \<le> length filename"
    using add_entry_name_len_strlen [of filename] strlen_le_length [of filename] by simp
  then show ?thesis
    by (simp add: fname_length_unat add_entry_def)
qed




lemma zip_entry_add_written:
  assumes "\<not> entry_opened z"
    and w: "write_fields (out_cb z) 0 (out_cb_ctx z)
           (lf_header_fields (add_lf_header (add_entry Z z filename datetime)
              (add_entry_name_len filename))) = (True, bw, ctx1)"
    and "out_cb z ctx1 (take (add_entry_name_len filename) filename) = (True, ctx2)"
  shows "zip_entry_add Z z filename datetime =
           (fst (deflateReset Z (stream z)) = Z_OK,
            z\<lparr>out_cb_ctx := ctx2,
              entry_opened := True,
              entries := varray_push (entries z) (add_entry Z z filename datetime),
              bytes_written := bytes_written z + (30 + of_nat (add_entry_name_len filename)),
              stream := snd (deflateReset Z (stream z))\<rparr>)"
proof -
  have bw: "bw = 30"
    using write_fields_count [OF w] by (simp add: lf_header_sizes)
  let ?h = "add_lf_header (add_entry Z z filename datetime) (add_entry_name_len filename)"
  have "(ucast (lf_fname_length ?h) :: size_t) = of_nat (unat (lf_fname_length ?h))"
    by simp
  then have u: "(ucast (lf_fname_length ?h) :: size_t) = of_nat (add_entry_name_len filename)"
    by (simp only: fname_length_unat)
  show ?thesis
    using assms by (simp add: zip_entry_add_def Let_def add_name_bytes bw u case_prod_beta)
qed

text \<open>
  C10. When \<^verbatim>\<open>zip_entry_add\<close> is called with no entry open, every header field and the name
  are written, and \<^verbatim>\<open>deflateReset\<close> then fails, the call returns false in a state that
  differs from the one before: \<^verbatim>\<open>entry_opened\<close> is true, the new entry is appended (one
  entry more), and \<^verbatim>\<open>bytes_written\<close> has advanced by the size of the local header, 30
  bytes and the stored name.
\<close>

theorem reset_failure_changes_state:
  assumes "\<not> entry_opened z"
    and "write_fields (out_cb z) 0 (out_cb_ctx z)
           (lf_header_fields (add_lf_header (add_entry Z z filename datetime)
              (add_entry_name_len filename))) = (True, bw, ctx1)"
    and "out_cb z ctx1 (take (add_entry_name_len filename) filename) = (True, ctx2)"
    and "fst (deflateReset Z (stream z)) \<noteq> Z_OK"
  shows "\<exists>z'. zip_entry_add Z z filename datetime = (False, z') \<and>
              z' \<noteq> z \<and>
              entry_opened z' \<and>
              entries z' = varray_push (entries z) (add_entry Z z filename datetime) \<and>
              zip_get_num_entries z' = zip_get_num_entries z + 1 \<and>
              bytes_written z' = bytes_written z + (30 + of_nat (add_entry_name_len filename))"
proof -
  let ?z' = "z\<lparr>out_cb_ctx := ctx2,
              entry_opened := True,
              entries := varray_push (entries z) (add_entry Z z filename datetime),
              bytes_written := bytes_written z + (30 + of_nat (add_entry_name_len filename)),
              stream := snd (deflateReset Z (stream z))\<rparr>"
  have "zip_entry_add Z z filename datetime = (False, ?z')"
    using zip_entry_add_written [OF assms(1-3)] assms(4) by simp
  moreover have "?z' \<noteq> z"
  proof
    assume "?z' = z"
    then have "entry_opened ?z' = entry_opened z" by (rule arg_cong)
    with assms(1) show False by simp
  qed
  ultimately show ?thesis
    by (intro exI [of _ ?z']) (simp add: zip_get_num_entries_def va_len_varray_push)
qed

theorem reset_failure_changes_state_witness:
  "fst (zip_entry_add bad_reset_zlib idle_state a_txt dt0) = False \<and>
   snd (zip_entry_add bad_reset_zlib idle_state a_txt dt0) \<noteq> idle_state \<and>
   entry_opened (snd (zip_entry_add bad_reset_zlib idle_state a_txt dt0)) \<and>
   zip_get_num_entries (snd (zip_entry_add bad_reset_zlib idle_state a_txt dt0)) = 1 \<and>
   bytes_written (snd (zip_entry_add bad_reset_zlib idle_state a_txt dt0)) = 35"
proof -
  have acc: "\<forall>c d. fst (out_cb idle_state c d)"
    by (simp add: idle_state_def recording_apply accept_all_def)
  let ?fields = "lf_header_fields (add_lf_header (add_entry bad_reset_zlib idle_state a_txt dt0)
              (add_entry_name_len a_txt))"
  have "\<forall>n \<in> set ?fields. sized n"
    by (simp add: lf_header_fields_def)
  from write_fields_accepting [OF acc this, of 0 "out_cb_ctx idle_state"]
  obtain ctx1 where w: "write_fields (out_cb idle_state) 0 (out_cb_ctx idle_state) ?fields
      = (True, 30, ctx1)"
    by (auto simp add: lf_header_bytes)
  from acc have "fst (out_cb idle_state ctx1 (take (add_entry_name_len a_txt) a_txt))"
    by (rule allE) (erule allE)
  then obtain ctx2 where
    n: "out_cb idle_state ctx1 (take (add_entry_name_len a_txt) a_txt) = (True, ctx2)"
    by (cases "out_cb idle_state ctx1 (take (add_entry_name_len a_txt) a_txt)") simp
  have r: "fst (deflateReset bad_reset_zlib (stream idle_state)) \<noteq> Z_OK"
    by (simp add: bad_reset_zlib_def Z_OK_def)
  have len: "add_entry_name_len a_txt = 5"
    by (simp add: add_entry_name_len_def strlen_def a_txt_def ZIP_ENTRY_MAX_NAME_LEN_def)
  have e0: "zip_get_num_entries idle_state = 0" "bytes_written idle_state = 0"
    by (simp_all add: idle_state_def zip_get_num_entries_def va_len_def varray_init_def)
  from reset_failure_changes_state [OF idle_state_closed w n r] show ?thesis
    by (auto simp add: len e0)
qed



lemma strlen_take: "n < strlen s \<Longrightarrow> strlen (take n s) = n"
proof (induction s arbitrary: n)
  case Nil
  then show ?case by (simp add: strlen_def)
next
  case (Cons x s)
  show ?case
  proof (cases n)
    case 0
    then show ?thesis by (simp add: strlen_def)
  next
    case (Suc m)
    with Cons.prems have x: "x \<noteq> 0" and m: "m < strlen s"
      by (auto simp add: strlen_def split: if_splits)
    from Cons.IH [OF m] x Suc show ?thesis
      by (simp add: strlen_def)
  qed
qed

lemma strlen_snoc_nul: "strlen s = length s \<Longrightarrow> strlen (s @ [0]) = length s"
proof (induction s)
  case Nil
  show ?case by (simp add: strlen_def)
next
  case (Cons x s)
  then show ?case by (auto simp add: strlen_def split: if_splits)
qed

lemma add_entry_name_len_long:
  "ZIP_ENTRY_MAX_NAME_LEN < strlen filename \<Longrightarrow>
   add_entry_name_len filename = ZIP_ENTRY_MAX_NAME_LEN \<and>
   add_entry_name_len (take ZIP_ENTRY_MAX_NAME_LEN filename) = ZIP_ENTRY_MAX_NAME_LEN"
  by (simp add: add_entry_name_len_def Let_def strlen_take)

lemma zip_entry_add_accepting:
  assumes closed: "\<not> entry_opened z" and cb: "out_cb z = recording cb"
    and acc: "\<forall>c d. fst (cb c d)"
  shows "\<exists>z'. zip_entry_add Z z filename datetime = (fst (deflateReset Z (stream z)) = Z_OK, z') \<and>
           sink_log z' = sink_log z @
             oks (map le_bytes (lf_header_fields (add_lf_header (add_entry Z z filename datetime)
                    (add_entry_name_len filename)))
                  @ [take (add_entry_name_len filename) filename]) \<and>
           entry_opened z' \<and>
           out_cb z' = out_cb z \<and>
           central_dir_offset z' = central_dir_offset z \<and>
           entries z' = varray_push (entries z) (add_entry Z z filename datetime) \<and>
           bytes_written z' = bytes_written z + (30 + of_nat (add_entry_name_len filename))"
proof -
  let ?fields = "lf_header_fields (add_lf_header (add_entry Z z filename datetime)
                    (add_entry_name_len filename))"
  obtain log c where ctx: "out_cb_ctx z = (log, c)" by (cases "out_cb_ctx z") auto
  have acc': "\<forall>c d. fst (recording cb c d)"
    using acc by (simp add: recording_apply)
  have "\<forall>n \<in> set ?fields. sized n" by (simp add: lf_header_fields_def)
  from write_fields_accepting [OF acc' this, of 0 "(log, c)"]
  obtain ctx1 where w: "write_fields (recording cb) 0 (log, c) ?fields = (True, 30, ctx1)"
    by (auto simp add: lf_header_bytes)
  from write_fields_recording_True [OF w] have l1: "fst ctx1 = log @ oks (map le_bytes ?fields)"
    by simp
  let ?nm = "take (add_entry_name_len filename) filename"
  have n: "recording cb ctx1 ?nm = (True, (fst ctx1 @ [(?nm, True)], snd (cb (snd ctx1) ?nm)))"
    using acc recording_apply [of cb "fst ctx1" "snd ctx1" ?nm] by simp
  note r = zip_entry_add_written [OF closed w [folded ctx cb] n [folded cb]]
  let ?z' = "z\<lparr>out_cb_ctx := (fst ctx1 @ [(?nm, True)], snd (cb (snd ctx1) ?nm)),
              entry_opened := True,
              entries := varray_push (entries z) (add_entry Z z filename datetime),
              bytes_written := bytes_written z + (30 + of_nat (add_entry_name_len filename)),
              stream := snd (deflateReset Z (stream z))\<rparr>"
  show ?thesis
    unfolding r
    by (rule exI [of _ ?z']) (simp add: sink_log_def ctx l1 oks_def)
qed

text \<open>
  C5. For a name longer than \<^verbatim>\<open>ZIP_ENTRY_MAX_NAME_LEN\<close> = 127 bytes, \<^verbatim>\<open>zip_entry_add\<close> does
  exactly what it does for the first 127 bytes of the name, so the length is no error of its
  own. The entry record holds these 127 bytes followed by a NUL, its \<^verbatim>\<open>strlen\<close> is 127,
  and the header's name length is 127. With no entry open, a sink that accepts every write
  and a \<^verbatim>\<open>deflateReset\<close> that succeeds, the call returns true, the new entry is the current
  one, and the sink has received the header fields followed by exactly the first 127 bytes
  of the name.
\<close>

theorem long_name_truncated:
  assumes long: "ZIP_ENTRY_MAX_NAME_LEN < strlen filename"
  shows "zip_entry_add Z z filename datetime
           = zip_entry_add Z z (take ZIP_ENTRY_MAX_NAME_LEN filename) datetime \<and>
         name (add_entry Z z filename datetime) = take 127 filename @ [0] \<and>
         length (take 127 filename) = 127 \<and>
         strlen (name (add_entry Z z filename datetime)) = 127 \<and>
         lf_fname_length (add_lf_header (add_entry Z z filename datetime)
            (add_entry_name_len filename)) = 127 \<and>
         (\<not> entry_opened z \<and> out_cb z = recording cb \<and> (\<forall>c d. fst (cb c d)) \<and>
          fst (deflateReset Z (stream z)) = Z_OK \<longrightarrow>
            (\<exists>z'. zip_entry_add Z z filename datetime = (True, z') \<and>
                  CUR_ENTRY z' = Some (add_entry Z z filename datetime) \<and>
                  sink_log z' = sink_log z @
                    oks (map le_bytes (lf_header_fields (add_lf_header
                           (add_entry Z z filename datetime) 127))
                         @ [take 127 filename])))"
proof -
  note n = add_entry_name_len_long [OF long, unfolded ZIP_ENTRY_MAX_NAME_LEN_def]
  from long have l: "127 < length filename"
    using strlen_le_length [of filename] by (simp add: ZIP_ENTRY_MAX_NAME_LEN_def)
  have e: "add_entry Z z (take 127 filename) datetime = add_entry Z z filename datetime"
    by (simp add: add_entry_def n)
  have 1: "zip_entry_add Z z filename datetime
           = zip_entry_add Z z (take ZIP_ENTRY_MAX_NAME_LEN filename) datetime"
    by (simp add: zip_entry_add_def ZIP_ENTRY_MAX_NAME_LEN_def n e)
  have 2: "name (add_entry Z z filename datetime) = take 127 filename @ [0]"
    by (simp add: add_entry_def n)
  have 3: "length (take 127 filename) = 127" using l by simp
  have s: "strlen (take 127 filename) = 127"
    using strlen_take [of 127 filename] long by (simp add: ZIP_ENTRY_MAX_NAME_LEN_def)
  have 4: "strlen (name (add_entry Z z filename datetime)) = 127"
    unfolding 2 using strlen_snoc_nul [of "take 127 filename"] s 3 by simp
  have 5: "lf_fname_length (add_lf_header (add_entry Z z filename datetime)
            (add_entry_name_len filename)) = 127"
    by (simp add: add_lf_header_def n)
  have 6: "\<not> entry_opened z \<and> out_cb z = recording cb \<and> (\<forall>c d. fst (cb c d)) \<and>
          fst (deflateReset Z (stream z)) = Z_OK \<longrightarrow>
            (\<exists>z'. zip_entry_add Z z filename datetime = (True, z') \<and>
                  CUR_ENTRY z' = Some (add_entry Z z filename datetime) \<and>
                  sink_log z' = sink_log z @
                    oks (map le_bytes (lf_header_fields (add_lf_header
                           (add_entry Z z filename datetime) 127))
                         @ [take 127 filename]))"
  proof (intro impI, elim conjE)
    assume a: "\<not> entry_opened z" "out_cb z = recording cb" "\<forall>c d. fst (cb c d)"
      and r: "fst (deflateReset Z (stream z)) = Z_OK"
    from zip_entry_add_accepting [OF a, of Z filename datetime]
    obtain z' where "zip_entry_add Z z filename datetime
             = (fst (deflateReset Z (stream z)) = Z_OK, z') \<and>
           sink_log z' = sink_log z @
             oks (map le_bytes (lf_header_fields (add_lf_header (add_entry Z z filename datetime)
                    (add_entry_name_len filename)))
                  @ [take (add_entry_name_len filename) filename]) \<and>
           entry_opened z' \<and>
           out_cb z' = out_cb z \<and>
           central_dir_offset z' = central_dir_offset z \<and>
           entries z' = varray_push (entries z) (add_entry Z z filename datetime) \<and>
           bytes_written z' = bytes_written z + (30 + of_nat (add_entry_name_len filename))" ..
    then have z': "zip_entry_add Z z filename datetime = (True, z')"
      "sink_log z' = sink_log z @
             oks (map le_bytes (lf_header_fields (add_lf_header (add_entry Z z filename datetime)
                    127)) @ [take 127 filename])"
      "entries z' = varray_push (entries z) (add_entry Z z filename datetime)"
      by (simp_all add: r n)
    have "CUR_ENTRY z' = Some (add_entry Z z filename datetime)"
      by (simp add: CUR_ENTRY_Some_iff z'(3) data_varray_push)
    with z'(1,2) show "\<exists>z'. zip_entry_add Z z filename datetime = (True, z') \<and>
                  CUR_ENTRY z' = Some (add_entry Z z filename datetime) \<and>
                  sink_log z' = sink_log z @
                    oks (map le_bytes (lf_header_fields (add_lf_header
                           (add_entry Z z filename datetime) 127))
                         @ [take 127 filename])"
      by (intro exI [of _ z']) simp
  qed
  show ?thesis by (intro conjI 1 2 3 4 5 6)
qed


theorem long_name_truncated_witness:
  "zip_entry_add copy_zlib idle_state (replicate 200 0x61) dt0
     = zip_entry_add copy_zlib idle_state (replicate 127 0x61) dt0 \<and>
   name (add_entry copy_zlib idle_state (replicate 200 0x61) dt0) = replicate 127 0x61 @ [0] \<and>
   strlen (name (add_entry copy_zlib idle_state (replicate 200 0x61) dt0)) = 127 \<and>
   (\<exists>z'. zip_entry_add copy_zlib idle_state (replicate 200 0x61) dt0 = (True, z') \<and>
         CUR_ENTRY z' = Some (add_entry copy_zlib idle_state (replicate 200 0x61) dt0) \<and>
         sink_log z' =
           oks (map le_bytes (lf_header_fields (add_lf_header
                  (add_entry copy_zlib idle_state (replicate 200 0x61) dt0) 127))
                @ [replicate 127 0x61]))"
proof -
  have long: "ZIP_ENTRY_MAX_NAME_LEN < strlen (replicate 200 (0x61 :: u8))"
    by (simp add: strlen_def ZIP_ENTRY_MAX_NAME_LEN_def)
  have pre: "\<not> entry_opened idle_state \<and> out_cb idle_state = recording accept_all \<and>
      (\<forall>c d. fst (accept_all c d)) \<and> fst (deflateReset copy_zlib (stream idle_state)) = Z_OK"
    by (simp add: idle_state_def accept_all_def copy_zlib_def Z_OK_def)
  have log: "sink_log idle_state = []"
    by (simp add: idle_state_def sink_log_def)
  have tk: "take 127 (replicate 200 (0x61 :: u8)) = replicate 127 0x61"
    by simp
  note t = long_name_truncated [OF long, of copy_zlib idle_state dt0 accept_all,
      unfolded ZIP_ENTRY_MAX_NAME_LEN_def tk log append_Nil]
  from t have a: "zip_entry_add copy_zlib idle_state (replicate 200 0x61) dt0
     = zip_entry_add copy_zlib idle_state (replicate 127 0x61) dt0"
    by (rule conjunct1)
  from t have b: "name (add_entry copy_zlib idle_state (replicate 200 0x61) dt0)
     = replicate 127 0x61 @ [0]"
    by (elim conjE)
  from t have c: "strlen (name (add_entry copy_zlib idle_state (replicate 200 0x61) dt0)) = 127"
    by (elim conjE)
  from t pre have d: "\<exists>z'. zip_entry_add copy_zlib idle_state (replicate 200 0x61) dt0 = (True, z') \<and>
         CUR_ENTRY z' = Some (add_entry copy_zlib idle_state (replicate 200 0x61) dt0) \<and>
         sink_log z' =
           oks (map le_bytes (lf_header_fields (add_lf_header
                  (add_entry copy_zlib idle_state (replicate 200 0x61) dt0) 127))
                @ [replicate 127 0x61])"
    by (elim conjE impE) (intro conjI; assumption)
  show ?thesis by (intro conjI a b c d)
qed


section \<open>Feeding and closing an entry\<close>










lemma uInt_0: "uInt 0 = 0"
  by (simp add: uInt_def)

lemma uInt_mod: "uInt n = n mod 2 ^ 32"
  by (simp add: uInt_def unat_of_nat)
















section \<open>Byte accounting\<close>



lemma strlen_le_length_name: "min (length s) (strlen s) = strlen s"
  using strlen_le_length [of s] by simp

lemma cd_record_bytes: "length (concat (cd_record e)) = 46 + strlen (name e)"
  by (simp add: cd_record_def central_data_bytes strlen_le_length_name)
















section \<open>The central directory\<close>














section \<open>Runs with a sink and a zlib that succeed\<close>









section \<open>Accounting of whole runs\<close>











section \<open>Central-directory records\<close>






section \<open>Field widths\<close>








end
